theory Spec2Isabelle
  imports Main "HOL-Library.Sublist" "HOL-Library.AList" "HOL-Library.Word"
begin

section \<open>Data model\<close>

text \<open>
  The script \<^verbatim>\<open>scripts/fix-connection-profile.py\<close> works on the value returned by
  \<^verbatim>\<open>json.loads\<close>. A Python \<^verbatim>\<open>str\<close> is a sequence of Unicode code points, so a
  string is a list of code points here; \<open>str\<close> turns a literal into that form.
\<close>

type_synonym pystr = "nat list"

definition str :: "string \<Rightarrow> pystr" where
  "str cs = map of_char cs"

text \<open>
  The values \<^verbatim>\<open>json.loads\<close> produces: \<^verbatim>\<open>None\<close>, \<^verbatim>\<open>bool\<close>, \<^verbatim>\<open>int\<close> (unbounded),
  \<^verbatim>\<open>float\<close> (an IEEE double, never inspected by the script and kept as its 64 bits),
  \<^verbatim>\<open>str\<close>, \<^verbatim>\<open>list\<close> and \<^verbatim>\<open>dict\<close>. A dict keeps its insertion order, so it is an
  association list; lookups take the first entry of a key, and a dict built by
  \<^verbatim>\<open>json.loads\<close> has no second one.
\<close>

datatype json =
    JNull
  | JBool bool
  | JInt int
  | JFloat "64 word"
  | JStr pystr
  | JArr "json list"
  | JObj "(pystr \<times> json) list"

datatype error = KeyError | TypeError | FileNotFoundError | PermissionError
  | UnicodeDecodeError | JSONDecodeError

section \<open>Python string operations used by the script\<close>

text \<open>The line feed, and the two characters backslash and \<open>n\<close> of the literal \<^verbatim>\<open>'\\n'\<close>.\<close>

definition NL :: nat where
  "NL = 10"

definition escaped_nl :: pystr where
  "escaped_nl = [92, 110]"

definition marker :: pystr where
  "marker = str ''-----BEGIN CERTIFICATE-----''"

text \<open>
  \<^verbatim>\<open>str.strip()\<close> without argument removes the characters for which CPython's
  \<^verbatim>\<open>Py_UNICODE_ISSPACE\<close> holds.
\<close>

definition isspace :: "nat \<Rightarrow> bool" where
  "isspace c \<longleftrightarrow>
     (9 \<le> c \<and> c \<le> 13) \<or> (28 \<le> c \<and> c \<le> 32) \<or> c = 133 \<or> c = 160 \<or> c = 5760
     \<or> (8192 \<le> c \<and> c \<le> 8202) \<or> c = 8232 \<or> c = 8233 \<or> c = 8239 \<or> c = 8287
     \<or> c = 12288"

definition strip :: "pystr \<Rightarrow> pystr" where
  "strip s = rev (dropWhile isspace (rev (dropWhile isspace s)))"

text \<open>\<^verbatim>\<open>s.split(sep)\<close> for a separator of one character: never the empty list.\<close>

fun split :: "nat \<Rightarrow> pystr \<Rightarrow> pystr list" where
  "split sep [] = [[]]"
| "split sep (c # cs) =
     (if c = sep then [] # split sep cs
      else (case split sep cs of [] \<Rightarrow> [[c]] | l # ls \<Rightarrow> (c # l) # ls))"

text \<open>\<^verbatim>\<open>sep.join(xs)\<close>.\<close>

fun join :: "pystr \<Rightarrow> pystr list \<Rightarrow> pystr" where
  "join sep [] = []"
| "join sep [x] = x"
| "join sep (x # y # ys) = x @ sep @ join sep (y # ys)"

text \<open>\<^verbatim>\<open>pat in s\<close> on strings: \<open>pat\<close> occurs in \<open>s\<close> as a contiguous block.\<close>

fun contains :: "pystr \<Rightarrow> pystr \<Rightarrow> bool" where
  "contains pat [] \<longleftrightarrow> pat = []"
| "contains pat (c # cs) \<longleftrightarrow> prefix pat (c # cs) \<or> contains pat cs"

section \<open>The certificate pass\<close>

text \<open>
  Lines 31 and 32 of the script:
  \<^verbatim>\<open>lines = value.strip().split('\n'); obj[key] = '\\n'.join(lines)\<close>.
\<close>

definition flatten :: "pystr \<Rightarrow> pystr" where
  "flatten v = join escaped_nl (split NL (strip v))"

text \<open>
  \<^verbatim>\<open>fix_certificates\<close> mutates the tree in place; the tree of \<^verbatim>\<open>json.loads\<close> shares no
  node, so the model returns the rebuilt value. \<open>fix_items\<close> is the loop over
  \<^verbatim>\<open>obj.items()\<close> and \<open>fix_list\<close> the loop over a list. In the loop over a dict the
  first branch needs a \<^verbatim>\<open>str\<close> and the second a dict or a list, so the
  \<^verbatim>\<open>if\<close>/\<^verbatim>\<open>elif\<close> chain is a case distinction on the value.
\<close>

fun fix_certificates :: "json \<Rightarrow> json"
  and fix_items :: "(pystr \<times> json) list \<Rightarrow> (pystr \<times> json) list"
  and fix_list :: "json list \<Rightarrow> json list" where
  "fix_certificates (JObj kvs) = JObj (fix_items kvs)"
| "fix_certificates (JArr xs) = JArr (fix_list xs)"
| "fix_certificates JNull = JNull"
| "fix_certificates (JBool b) = JBool b"
| "fix_certificates (JInt i) = JInt i"
| "fix_certificates (JFloat w) = JFloat w"
| "fix_certificates (JStr s) = JStr s"
| "fix_items [] = []"
| "fix_items ((key, val) # rest) =
     (case val of
        JStr s \<Rightarrow>
          (if key = str ''pem'' \<and> contains marker s then (key, JStr (flatten s))
           else (key, val))
      | JObj kvs \<Rightarrow> (key, fix_certificates (JObj kvs))
      | JArr xs \<Rightarrow> (key, fix_certificates (JArr xs))
      | _ \<Rightarrow> (key, val)) # fix_items rest"
| "fix_list [] = []"
| "fix_list (item # rest) = fix_certificates item # fix_list rest"

section \<open>The two assignments\<close>

text \<open>\<^verbatim>\<open>obj[key]\<close> with a \<^verbatim>\<open>str\<close> key: only a dict accepts it, and the key must be there.\<close>

fun getitem :: "json \<Rightarrow> pystr \<Rightarrow> error + json" where
  "getitem (JObj kvs) key = (case map_of kvs key of None \<Rightarrow> Inl KeyError | Some v \<Rightarrow> Inr v)"
| "getitem _ key = Inl TypeError"

text \<open>
  \<^verbatim>\<open>obj[key] = v\<close> with a \<^verbatim>\<open>str\<close> key: a dict replaces the value of a key it has, at the
  key's place, and appends a new key; every other value raises \<^verbatim>\<open>TypeError\<close>.
\<close>

fun setitem :: "json \<Rightarrow> pystr \<Rightarrow> json \<Rightarrow> error + json" where
  "setitem (JObj kvs) key v = Inr (JObj (AList.update key v kvs))"
| "setitem _ key v = Inl TypeError"

text \<open>
  The statement \<^verbatim>\<open>d[k1][k2]...[kn] = v\<close>: the subscripts but the last are read from left
  to right, the last one is stored. The store changes the inner dict in place; the model
  puts the changed dict back under its key on the way out, which cannot fail and keeps
  the key's place. The script has two such statements, of two and of four subscripts;
  the equation for no subscript only makes the function total.
\<close>

fun assign :: "json \<Rightarrow> pystr list \<Rightarrow> json \<Rightarrow> error + json" where
  "assign d [] v = Inr v"
| "assign d [key] v = setitem d key v"
| "assign d (key # keys) v =
     (case getitem d key of
        Inl e \<Rightarrow> Inl e
      | Inr sub \<Rightarrow>
          (case assign sub keys v of
             Inl e \<Rightarrow> Inl e
           | Inr sub' \<Rightarrow> setitem d key sub'))"

definition organization_path :: "pystr list" where
  "organization_path = [str ''client'', str ''organization'']"

definition discover_path :: "pystr list" where
  "discover_path = [str ''client'', str ''connection'', str ''timeout'', str ''discover'']"

definition discovery :: json where
  "discovery = JObj [(str ''enabled'', JBool True), (str ''asLocalhost'', JBool True)]"

text \<open>Line 17: \<^verbatim>\<open>connection_profile['client']['organization'] = 'Org1MSP'\<close>.\<close>

definition fix_organization :: "json \<Rightarrow> error + json" where
  "fix_organization d = assign d organization_path (JStr (str ''Org1MSP''))"

text \<open>Lines 20 to 23: the assignment to
  \<^verbatim>\<open>connection_profile['client']['connection']['timeout']['discover']\<close>.\<close>

definition add_discovery :: "json \<Rightarrow> error + json" where
  "add_discovery d = assign d discover_path discovery"

text \<open>Lines 17 to 39: what the script does to the loaded document.\<close>

definition patch :: "json \<Rightarrow> error + json" where
  "patch d =
     (case fix_organization d of
        Inl e \<Rightarrow> Inl e
      | Inr d1 \<Rightarrow>
          (case add_discovery d1 of
             Inl e \<Rightarrow> Inl e
           | Inr d2 \<Rightarrow> Inr (fix_certificates d2)))"

section \<open>Fields of a document\<close>

text \<open>A field is named by the path that leads to it: dict keys and list positions.\<close>

datatype step = Key pystr | Idx nat

fun at_path :: "json \<Rightarrow> step list \<Rightarrow> json option" where
  "at_path v [] = Some v"
| "at_path (JObj kvs) (Key k # p) =
     (case map_of kvs k of None \<Rightarrow> None | Some v \<Rightarrow> at_path v p)"
| "at_path (JArr xs) (Idx i # p) = (if i < length xs then at_path (xs ! i) p else None)"
| "at_path _ _ = None"

fun is_dict :: "json option \<Rightarrow> bool" where
  "is_dict (Some (JObj kvs)) = True"
| "is_dict _ = False"

fun is_scalar :: "json \<Rightarrow> bool" where
  "is_scalar (JObj kvs) = False"
| "is_scalar (JArr xs) = False"
| "is_scalar _ = True"

fun is_list :: "json option \<Rightarrow> bool" where
  "is_list (Some (JArr xs)) = True"
| "is_list _ = False"

section \<open>The run of the script\<close>

text \<open>
  The files the script touches: their bytes (\<open>None\<close> when the file does not exist) and
  whether the process may read them or write them. Two paths that differ as strings name
  two files.
\<close>

record filesystem =
  files :: "string \<Rightarrow> string option"
  readable :: "string \<Rightarrow> bool"
  writable :: "string \<Rightarrow> bool"

definition source_path :: string where
  "source_path = ''../config/connection-profile.json''"

definition backup_path :: string where
  "backup_path = ''../config/connection-profile.json.bak''"

definition output_path :: string where
  "output_path = ''config/connection-profile.json''"

text \<open>
  \<^verbatim>\<open>os.system('cp src dst')\<close>: the shell command copies the bytes when it can read the
  source and write the destination, and changes nothing otherwise; \<^verbatim>\<open>os.system\<close> returns
  the exit status and raises nothing.
\<close>

definition os_system_cp :: "string \<Rightarrow> string \<Rightarrow> filesystem \<Rightarrow> filesystem \<times> nat" where
  "os_system_cp src dst fs =
     (if files fs src \<noteq> None \<and> readable fs src \<and> writable fs dst
      then (fs\<lparr>files := (files fs)(dst := files fs src)\<rparr>, 0)
      else (fs, 1))"

text \<open>\<^verbatim>\<open>open(path, 'r')\<close> and reading the bytes.\<close>

definition open_read :: "filesystem \<Rightarrow> string \<Rightarrow> error + string" where
  "open_read fs path =
     (case files fs path of
        None \<Rightarrow> Inl FileNotFoundError
      | Some bytes \<Rightarrow> if readable fs path then Inr bytes else Inl PermissionError)"

text \<open>
  \<^verbatim>\<open>open(path, 'w')\<close> and writing the bytes; whatever keeps the file from being opened
  for writing is reported as \<^verbatim>\<open>PermissionError\<close>.
\<close>

definition open_write :: "filesystem \<Rightarrow> string \<Rightarrow> string \<Rightarrow> error + filesystem" where
  "open_write fs path bytes =
     (if writable fs path then Inr (fs\<lparr>files := (files fs)(path \<mapsto> bytes)\<rparr>)
      else Inl PermissionError)"

text \<open>
  Lines 10 to 14: reading and parsing the profile. The Python library enters as
  parameters: \<open>decode\<close> is the decoding of the file's bytes by \<^verbatim>\<open>f.read()\<close> and
  \<open>loads\<close> is \<^verbatim>\<open>json.loads\<close>.
\<close>

definition load :: "(string \<Rightarrow> error + pystr) \<Rightarrow> (pystr \<Rightarrow> error + json) \<Rightarrow> filesystem
    \<Rightarrow> error + json" where
  "load decode loads fs =
     (case open_read fs source_path of
        Inl e \<Rightarrow> Inl e
      | Inr bytes \<Rightarrow>
          (case decode bytes of
             Inl e \<Rightarrow> Inl e
           | Inr content \<Rightarrow> loads content))"

text \<open>
  The whole script; \<open>dumps\<close> is the text that \<^verbatim>\<open>json.dump(..., indent=4)\<close> writes, encoded.
  The exit status of the copy is dropped, as line 7 drops it. An exception ends the run
  with the file system as it is at that point.
\<close>

definition run :: "(string \<Rightarrow> error + pystr) \<Rightarrow> (pystr \<Rightarrow> error + json) \<Rightarrow> (json \<Rightarrow> string)
    \<Rightarrow> filesystem \<Rightarrow> filesystem \<times> (error + unit)" where
  "run decode loads dumps fs =
     (let fs1 = fst (os_system_cp source_path backup_path fs) in
      case load decode loads fs1 of
        Inl e \<Rightarrow> (fs1, Inl e)
      | Inr connection_profile \<Rightarrow>
          (case patch connection_profile of
             Inl e \<Rightarrow> (fs1, Inl e)
           | Inr fixed \<Rightarrow>
               (case open_write fs1 output_path (dumps fixed) of
                  Inl e \<Rightarrow> (fs1, Inl e)
                | Inr fs2 \<Rightarrow> (fs2, Inr ()))))"

section \<open>Notions used to state the properties\<close>

text \<open>Every line feed replaced by the two characters backslash and \<open>n\<close>.\<close>

definition replace_nl :: "pystr \<Rightarrow> pystr" where
  "replace_nl s = concat (map (\<lambda>c. if c = NL then escaped_nl else [c]) s)"

text \<open>
  The specification's wording of the flattening: the lines of a text, joined by the
  two characters backslash and \<open>n\<close>.
\<close>

definition spec_joined_lines :: "pystr \<Rightarrow> pystr" where
  "spec_joined_lines s = join escaped_nl (split NL s)"

text \<open>A certificate field: an entry keyed \<^verbatim>\<open>pem\<close> whose value is a string with the marker.\<close>

definition pem_field :: "step list \<Rightarrow> json \<Rightarrow> bool" where
  "pem_field p v \<longleftrightarrow>
     p \<noteq> [] \<and> last p = Key (str ''pem'')
     \<and> (case v of JStr s \<Rightarrow> contains marker s | _ \<Rightarrow> False)"

text \<open>What the certificate pass leaves at path \<open>p\<close> where \<open>v\<close> was.\<close>

definition fix_field :: "step list \<Rightarrow> json \<Rightarrow> json" where
  "fix_field p v =
     (case v of
        JStr s \<Rightarrow>
          if p \<noteq> [] \<and> last p = Key (str ''pem'') \<and> contains marker s then JStr (flatten s)
          else v
      | _ \<Rightarrow> fix_certificates v)"

subsection \<open>Example documents and files\<close>

text \<open>The scenario of the specification and its patched form.\<close>

definition scenario_doc :: json where
  "scenario_doc =
     JObj [(str ''client'',
       JObj [(str ''organization'', JStr (str ''X'')),
             (str ''connection'', JObj [(str ''timeout'', JObj [])])])]"

definition scenario_fixed :: json where
  "scenario_fixed =
     JObj [(str ''client'',
       JObj [(str ''organization'', JStr (str ''Org1MSP'')),
             (str ''connection'',
               JObj [(str ''timeout'',
                 JObj [(str ''discover'',
                   JObj [(str ''enabled'', JBool True), (str ''asLocalhost'', JBool True)])])])])]"


text \<open>A certificate text with a blank in front, and one that ends with a line feed.\<close>

definition padded_pem :: pystr where
  "padded_pem = 32 # marker @ [NL] @ str ''ABC''"

definition padded_doc :: json where
  "padded_doc = JObj [(str ''pem'', JStr padded_pem)]"

definition newline_pem :: pystr where
  "newline_pem = marker @ [NL] @ str ''ABC'' @ [NL]"

definition newline_doc :: json where
  "newline_doc = JObj [(str ''tlsCACerts'', JObj [(str ''pem'', JStr newline_pem)])]"

text \<open>
  The bytes of the scenario's profile, and instances of the library functions that know
  this one file: the decoding of ASCII, the parse of these bytes, and the text written
  for the patched scenario.
\<close>

definition scenario_bytes :: string where
  \<open>scenario_bytes = ''{"client":{"organization":"X","connection":{"timeout":{}}}}''\<close>

definition scenario_fixed_bytes :: string where
  \<open>scenario_fixed_bytes =
     concat (map (\<lambda>l. l @ [CHR 0x0A])
       [''{'',
        ''    "client": {'',
        ''        "organization": "Org1MSP",'',
        ''        "connection": {'',
        ''            "timeout": {'',
        ''                "discover": {'',
        ''                    "enabled": true,'',
        ''                    "asLocalhost": true'',
        ''                }'',
        ''            }'',
        ''        }'',
        ''    }'']) @ ''}''\<close>

definition example_decode :: "string \<Rightarrow> error + pystr" where
  "example_decode bytes = Inr (str bytes)"

definition example_loads :: "pystr \<Rightarrow> error + json" where
  "example_loads content =
     (if content = str scenario_bytes then Inr scenario_doc else Inl JSONDecodeError)"

definition example_dumps :: "json \<Rightarrow> string" where
  "example_dumps d = (if d = scenario_fixed then scenario_fixed_bytes else [])"

text \<open>
  A file system with the profile in place, an old backup that the process may not
  overwrite, and no output file yet.
\<close>

definition locked_backup_fs :: filesystem where
  "locked_backup_fs =
     \<lparr>files = (\<lambda>p. if p = source_path then Some scenario_bytes
                    else if p = backup_path then Some ''old backup'' else None),
      readable = (\<lambda>p. True),
      writable = (\<lambda>p. p \<noteq> backup_path)\<rparr>"


definition empty_fs :: filesystem where
  "empty_fs = \<lparr>files = (\<lambda>p. None), readable = (\<lambda>p. True), writable = (\<lambda>p. True)\<rparr>"

text \<open>
  A profile with fields beside the three places the script changes: a name, a timeout
  of a peer, a certificate that ends with a line feed and a \<^verbatim>\<open>pem\<close> entry without
  the marker; and its patched form.
\<close>

definition profile_doc :: json where
  "profile_doc =
     JObj [(str ''name'', JStr (str ''net'')),
           (str ''client'',
             JObj [(str ''organization'', JStr (str ''X'')),
                   (str ''connection'', JObj [(str ''timeout'', JObj [(str ''peer'', JInt 300)])])]),
           (str ''peers'', JArr [JObj [(str ''pem'', JStr newline_pem)], JObj [(str ''pem'', JStr (str ''none''))]])]"

definition profile_fixed :: json where
  "profile_fixed =
     JObj [(str ''name'', JStr (str ''net'')),
           (str ''client'',
             JObj [(str ''organization'', JStr (str ''Org1MSP'')),
                   (str ''connection'',
                     JObj [(str ''timeout'', JObj [(str ''peer'', JInt 300), (str ''discover'', discovery)])])]),
           (str ''peers'',
             JArr [JObj [(str ''pem'', JStr (marker @ escaped_nl @ str ''ABC''))],
                   JObj [(str ''pem'', JStr (str ''none''))]])]"

section \<open>Lemmas about the string operations, the certificate pass and the assignments\<close>

lemma str_simps: "str [] = []" "str (c # cs) = of_char c # str cs"
  by (simp_all add: str_def)


lemma split_not_Nil: "split sep s \<noteq> []"
  by (induction s) (auto split: list.splits)

lemma join_Cons: "ls \<noteq> [] \<Longrightarrow> join sep (l # ls) = l @ sep @ join sep ls"
  by (cases ls) auto

lemma join_split: "join sep (split c s) = concat (map (\<lambda>x. if x = c then sep else [x]) s)"
proof (induction s)
  case Nil
  show ?case by simp
next
  case (Cons x s)
  obtain l ls where sp: "split c s = l # ls"
    using split_not_Nil [of c s] by (cases "split c s") auto
  show ?case
  proof (cases "x = c")
    case True
    then show ?thesis using Cons split_not_Nil [of c s] by (simp add: join_Cons)
  next
    case False
    have "join sep ((x # l) # ls) = x # join sep (l # ls)"
      by (cases ls) auto
    then show ?thesis using False Cons sp by simp
  qed
qed

lemma flatten_replace: "flatten s = replace_nl (strip s)"
  by (simp add: flatten_def replace_nl_def join_split)

lemma NL_notin_replace: "NL \<notin> set (replace_nl s)"
  by (induction s) (auto simp: replace_nl_def escaped_nl_def NL_def)

lemma replace_nl_id: "NL \<notin> set s \<Longrightarrow> replace_nl s = s"
  by (induction s) (auto simp: replace_nl_def)

lemma isspace_NL: "isspace NL"
  by (simp add: isspace_def NL_def)

lemma last_dropWhile_eq: "dropWhile P xs \<noteq> [] \<Longrightarrow> last (dropWhile P xs) = last xs"
  by (induction xs) (auto split: if_splits)

lemma strip_ends: "strip s = [] \<or> (\<not> isspace (hd (strip s)) \<and> \<not> isspace (last (strip s)))"
proof (cases "strip s = []")
  case True then show ?thesis by simp
next
  case False
  define a where "a = dropWhile isspace s"
  define b where "b = dropWhile isspace (rev a)"
  have t: "strip s = rev b" by (simp add: strip_def a_def b_def)
  from False t have bne: "b \<noteq> []" by simp
  then have ane: "a \<noteq> []" by (auto simp: b_def)
  have "\<not> isspace (hd b)" using bne unfolding b_def by (rule hd_dropWhile)
  moreover have "last b = last (rev a)" using bne unfolding b_def by (rule last_dropWhile_eq)
  moreover have "\<not> isspace (hd a)" using ane unfolding a_def by (rule hd_dropWhile)
  ultimately show ?thesis using t bne ane by (simp add: hd_rev last_rev)
qed

lemma strip_id: "u = [] \<or> (\<not> isspace (hd u) \<and> \<not> isspace (last u)) \<Longrightarrow> strip u = u"
proof (cases "u = []")
  case True then show ?thesis by (simp add: strip_def)
next
  case False
  assume "u = [] \<or> (\<not> isspace (hd u) \<and> \<not> isspace (last u))"
  with False have h: "\<not> isspace (hd u)" and l: "\<not> isspace (last u)" by auto
  have "dropWhile isspace u = u" using h False by (cases u) auto
  moreover have "dropWhile isspace (rev u) = rev u" using l False by (cases "rev u") (auto simp: last_rev hd_rev)
  ultimately show ?thesis by (simp add: strip_def)
qed

lemma hd_replace_nl: "s \<noteq> [] \<Longrightarrow> hd s \<noteq> NL \<Longrightarrow> hd (replace_nl s) = hd s"
  by (cases s) (auto simp: replace_nl_def)

lemma last_replace_nl: "s \<noteq> [] \<Longrightarrow> last s \<noteq> NL \<Longrightarrow> last (replace_nl s) = last s"
  by (induction s rule: rev_induct) (auto simp: replace_nl_def)

lemma replace_nl_Nil_iff: "replace_nl s = [] \<longleftrightarrow> s = []"
  by (cases s) (auto simp: replace_nl_def escaped_nl_def)

lemma flatten_idem: "flatten (flatten s) = flatten s"
proof -
  let ?t = "strip s"
  have "strip (replace_nl ?t) = replace_nl ?t"
  proof (rule strip_id, cases "?t = []")
    case True then show "replace_nl ?t = [] \<or> (\<not> isspace (hd (replace_nl ?t)) \<and> \<not> isspace (last (replace_nl ?t)))"
      by (simp add: replace_nl_def)
  next
    case False
    with strip_ends [of s] have h: "\<not> isspace (hd ?t)" and l: "\<not> isspace (last ?t)" by auto
    from h isspace_NL have "hd ?t \<noteq> NL" by auto
    moreover from l isspace_NL have "last ?t \<noteq> NL" by auto
    ultimately show "replace_nl ?t = [] \<or> (\<not> isspace (hd (replace_nl ?t)) \<and> \<not> isspace (last (replace_nl ?t)))"
      using False h l by (simp add: hd_replace_nl last_replace_nl)
  qed
  then show ?thesis by (simp add: flatten_replace replace_nl_id NL_notin_replace)
qed

lemma strip_snoc_NL: "strip (s @ [NL]) = strip s"
proof (cases "dropWhile isspace s = []")
  case True
  then have "\<forall>x\<in>set s. isspace x" by simp
  then have a: "dropWhile isspace (s @ [NL]) = []" using isspace_NL by simp
  show ?thesis unfolding strip_def a True by simp
next
  case False
  then have "dropWhile isspace (s @ [NL]) = dropWhile isspace s @ [NL]"
    by (auto simp: dropWhile_append dropWhile_eq_Nil_conv)
  then show ?thesis using isspace_NL by (simp add: strip_def)
qed


lemma fix_list_map: "fix_list xs = map fix_certificates xs"
  by (induction xs) auto

lemma map_of_fix_items:
  "map_of (fix_items kvs) k = map_option (fix_field [Key k]) (map_of kvs k)"
proof (induction kvs)
  case Nil
  show ?case by simp
next
  case (Cons kv kvs)
  obtain key val where kv: "kv = (key, val)" by (cases kv)
  show ?case using Cons unfolding kv by (cases val) (auto simp: fix_field_def)
qed

lemma fix_field_Cons: "p \<noteq> [] \<Longrightarrow> fix_field (st # p) v = fix_field p v"
  by (cases v) (simp_all add: fix_field_def)

lemma fix_field_Idx: "fix_field [Idx i] v = fix_certificates v"
  by (cases v) (simp_all add: fix_field_def)

lemma fix_field_Nil: "fix_field [] v = fix_certificates v"
  by (cases v) (simp_all add: fix_field_def)

lemma at_path_scalar: "is_scalar v \<Longrightarrow> p \<noteq> [] \<Longrightarrow> at_path v p = None"
  by (cases v; cases p) auto

lemma fix_field_scalar: "is_scalar v \<Longrightarrow> is_scalar (fix_field p v)"
  by (cases v) (auto simp: fix_field_def)

lemma fix_field_container: "\<not> is_scalar v \<Longrightarrow> fix_field p v = fix_certificates v"
  by (cases v) (auto simp: fix_field_def)

lemma at_path_fix:
  "at_path (fix_certificates d) p = map_option (fix_field p) (at_path d p)"
proof (induction p arbitrary: d)
  case Nil
  show ?case by (simp add: fix_field_Nil)
next
  case (Cons st p)
  show ?case
  proof (cases st)
    case (Key k)
    show ?thesis
    proof (cases d)
      case (JObj kvs)
      show ?thesis
      proof (cases "map_of kvs k")
        case None
        then show ?thesis using JObj Key by (simp add: map_of_fix_items)
      next
        case (Some v)
        show ?thesis
        proof (cases "p = []")
          case True
          then show ?thesis using JObj Key Some by (simp add: map_of_fix_items)
        next
          case False
          show ?thesis
          proof (cases "is_scalar v")
            case True
            then show ?thesis using JObj Key Some False
              by (simp add: map_of_fix_items at_path_scalar fix_field_scalar)
          next
            case nsc: False
            then show ?thesis using JObj Key Some False Cons.IH [of v]
              by (simp add: map_of_fix_items fix_field_container fix_field_Cons)
          qed
        qed
      qed
    qed (simp_all add: Key)
  next
    case (Idx i)
    show ?thesis
    proof (cases d)
      case (JArr xs)
      show ?thesis
      proof (cases "p = []")
        case True
        then show ?thesis using JArr Idx by (simp add: fix_list_map fix_field_Idx)
      next
        case False
        then show ?thesis using JArr Idx Cons.IH by (simp add: fix_list_map fix_field_Cons)
      qed
    qed (simp_all add: Idx)
  qed
qed

lemma fix_certificates_idem: "fix_certificates (fix_certificates d) = fix_certificates d"
  and fix_items_idem: "fix_items (fix_items kvs) = fix_items kvs"
  and fix_list_idem: "fix_list (fix_list xs) = fix_list xs"
proof (induction d and kvs and xs rule: fix_certificates_fix_items_fix_list.induct)
  case (9 key val rest)
  then show ?case by (cases val) (auto simp: flatten_idem)
qed simp_all



lemma at_path_update:
  "at_path (JObj (AList.update k v kvs)) (Key k' # p) =
     (if k' = k then at_path v p else at_path (JObj kvs) (Key k' # p))"
  by (simp add: update_conv')

lemma getitem_Inr: "getitem d k = Inr v \<longleftrightarrow> (\<exists>kvs. d = JObj kvs \<and> map_of kvs k = Some v)"
  by (cases d) (auto split: option.splits)

lemma setitem_Inr: "setitem d k v = Inr d' \<longleftrightarrow> (\<exists>kvs. d = JObj kvs \<and> d' = JObj (AList.update k v kvs))"
  by (cases d) auto

lemma assign_target:
  "keys \<noteq> [] \<Longrightarrow> assign d keys v = Inr d' \<Longrightarrow> at_path d' (map Key keys) = Some v"
proof (induction d keys v arbitrary: d' rule: assign.induct)
  case (1 d v)
  then show ?case by simp
next
  case (2 d key v)
  then show ?case by (auto simp: setitem_Inr update_conv')
next
  case (3 d key k2 keys v)
  from "3.prems"(2) obtain sub sub' where
    g: "getitem d key = Inr sub" and a: "assign sub (k2 # keys) v = Inr sub'"
    and s: "setitem d key sub' = Inr d'"
    by (auto split: sum.splits)
  from "3.IH" [OF g _ a] have "at_path sub' (map Key (k2 # keys)) = Some v" by simp
  then show ?case using s by (auto simp: setitem_Inr update_conv')
qed

lemma assign_frame:
  "keys \<noteq> [] \<Longrightarrow> assign d keys v = Inr d' \<Longrightarrow> \<not> prefix (map Key keys) p
   \<Longrightarrow> \<not> prefix p (map Key keys) \<Longrightarrow> at_path d' p = at_path d p"
proof (induction d keys v arbitrary: d' p rule: assign.induct)
  case (1 d v)
  then show ?case by simp
next
  case (2 d key v)
  from "2.prems"(2) obtain kvs where d: "d = JObj kvs" "d' = JObj (AList.update key v kvs)"
    by (auto simp: setitem_Inr)
  show ?case
  proof (cases p)
    case Nil
    then show ?thesis using "2.prems" by simp
  next
    case (Cons st q)
    then show ?thesis using "2.prems" d by (cases st) (auto simp: update_conv')
  qed
next
  case (3 d key k2 keys v)
  from "3.prems"(2) obtain sub sub' where
    g: "getitem d key = Inr sub" and a: "assign sub (k2 # keys) v = Inr sub'"
    and s: "setitem d key sub' = Inr d'"
    by (auto split: sum.splits)
  from g s obtain kvs where d: "d = JObj kvs" "map_of kvs key = Some sub"
    "d' = JObj (AList.update key sub' kvs)"
    by (auto simp: getitem_Inr setitem_Inr)
  show ?case
  proof (cases p)
    case Nil
    then show ?thesis using "3.prems" by simp
  next
    case (Cons st q)
    show ?thesis
    proof (cases "st = Key key")
      case True
      with Cons "3.prems" have "\<not> prefix (map Key (k2 # keys)) q" "\<not> prefix q (map Key (k2 # keys))"
        by auto
      from "3.IH" [OF g _ a this] have "at_path sub' q = at_path sub q" by simp
      then show ?thesis using True Cons d by (simp add: update_conv')
    next
      case False
      then show ?thesis using Cons d by (cases st) (auto simp: update_conv')
    qed
  qed
qed

lemma assign_dicts:
  "keys \<noteq> [] \<Longrightarrow> assign d keys v = Inr d' \<Longrightarrow> strict_prefix p (map Key keys)
   \<Longrightarrow> is_dict (at_path d p)"
proof (induction d keys v arbitrary: d' p rule: assign.induct)
  case (1 d v)
  then show ?case by simp
next
  case (2 d key v)
  then show ?case by (cases p) (auto simp: setitem_Inr)
next
  case (3 d key k2 keys v)
  from "3.prems"(2) obtain sub sub' where
    g: "getitem d key = Inr sub" and a: "assign sub (k2 # keys) v = Inr sub'"
    by (auto split: sum.splits)
  from g obtain kvs where d: "d = JObj kvs" "map_of kvs key = Some sub"
    by (auto simp: getitem_Inr)
  show ?case
  proof (cases p)
    case Nil
    then show ?thesis using d by simp
  next
    case (Cons st q)
    with "3.prems"(3) have st: "st = Key key" and q: "strict_prefix q (map Key (k2 # keys))"
      by auto
    from "3.IH" [OF g _ a q] show ?thesis using Cons st d by simp
  qed
qed

lemma assign_noop:
  "keys \<noteq> [] \<Longrightarrow> at_path d (map Key keys) = Some v \<Longrightarrow> assign d keys v = Inr d"
proof (induction d keys v rule: assign.induct)
  case (1 d v)
  then show ?case by simp
next
  case (2 d key v)
  then show ?case by (cases d) (auto split: option.splits simp: update_triv)
next
  case (3 d key k2 keys v)
  from "3.prems"(2) obtain kvs sub where d: "d = JObj kvs" "map_of kvs key = Some sub"
    and sub: "at_path sub (map Key (k2 # keys)) = Some v"
    by (cases d) (auto split: option.splits)
  have g: "getitem d key = Inr sub" using d by simp
  from "3.IH" [OF g _ sub] have "assign sub (k2 # keys) v = Inr sub" by simp
  then show ?case using d by (simp add: update_triv)
qed

lemma assign_succeeds:
  "keys \<noteq> [] \<Longrightarrow> (\<And>p. strict_prefix p (map Key keys) \<Longrightarrow> is_dict (at_path d p))
   \<Longrightarrow> \<exists>d'. assign d keys v = Inr d'"
proof (induction d keys v rule: assign.induct)
  case (1 d v)
  then show ?case by simp
next
  case (2 d key v)
  from "2.prems"(2) [of "[]"] show ?case by (cases d) auto
next
  case (3 d key k2 keys v)
  from "3.prems"(2) [of "[]"] obtain kvs where d: "d = JObj kvs" by (cases d) auto
  from "3.prems"(2) [of "[Key key]"] d obtain sub where sub: "map_of kvs key = Some sub"
    by (auto split: option.splits)
  have g: "getitem d key = Inr sub" using d sub by simp
  have "\<exists>s'. assign sub (k2 # keys) v = Inr s'"
  proof (rule "3.IH" [OF g])
    show "k2 # keys \<noteq> []" by simp
  next
    fix p assume "strict_prefix p (map Key (k2 # keys))"
    then have "strict_prefix (Key key # p) (map Key (key # k2 # keys))" by simp
    from "3.prems"(2) [OF this] show "is_dict (at_path sub p)" using d sub by simp
  qed
  then show ?case using d sub by auto
qed

section \<open>Lemmas about the patch\<close>

lemma patch_Inr:
  "patch d = Inr d' \<longleftrightarrow>
     (\<exists>d1 d2. fix_organization d = Inr d1 \<and> add_discovery d1 = Inr d2 \<and> d' = fix_certificates d2)"
  by (auto simp: patch_def split: sum.splits)

lemma strict_prefix_Cons_cases:
  "strict_prefix p (x # xs) \<longleftrightarrow> p = [] \<or> (\<exists>q. p = x # q \<and> strict_prefix q xs)"
  by (cases p) auto

lemma paths_apart:
  "\<not> prefix (map Key organization_path) (map Key discover_path)"
  "\<not> prefix (map Key discover_path) (map Key organization_path)"
  by (simp_all add: organization_path_def discover_path_def str_simps)

lemma patch_scenario_doc: "patch scenario_doc = Inr scenario_fixed"
  by (simp add: patch_def fix_organization_def add_discovery_def organization_path_def
      discover_path_def discovery_def scenario_doc_def scenario_fixed_def str_simps)


lemma fix_certificates_discovery: "fix_certificates discovery = discovery"
  by (simp add: discovery_def)

lemma patch_organization:
  assumes "patch d = Inr d'"
  shows "at_path d' (map Key organization_path) = Some (JStr (str ''Org1MSP''))"
proof -
  from assms obtain d1 d2 where o: "fix_organization d = Inr d1"
    and a: "add_discovery d1 = Inr d2" and f: "d' = fix_certificates d2"
    by (auto simp: patch_Inr)
  have "at_path d1 (map Key organization_path) = Some (JStr (str ''Org1MSP''))"
    using o unfolding fix_organization_def by (intro assign_target) (simp_all add: organization_path_def)
  moreover have "at_path d2 (map Key organization_path) = at_path d1 (map Key organization_path)"
    using a paths_apart unfolding add_discovery_def
    by (intro assign_frame [where keys = discover_path]) (simp_all add: discover_path_def)
  ultimately show ?thesis unfolding f
    by (simp add: at_path_fix) (simp add: fix_field_def organization_path_def str_simps)
qed

lemma patch_discover:
  assumes "patch d = Inr d'"
  shows "at_path d' (map Key discover_path) = Some discovery"
proof -
  from assms obtain d1 d2 where o: "fix_organization d = Inr d1"
    and a: "add_discovery d1 = Inr d2" and f: "d' = fix_certificates d2"
    by (auto simp: patch_Inr)
  have "at_path d2 (map Key discover_path) = Some discovery"
    using a unfolding add_discovery_def by (intro assign_target) (simp_all add: discover_path_def)
  then show ?thesis unfolding f
    by (simp add: at_path_fix) (simp add: fix_field_def discovery_def)
qed

lemma patch_idem: "patch d = Inr d' \<Longrightarrow> patch d' = Inr d'"
proof -
  assume p: "patch d = Inr d'"
  then obtain d2 where f: "d' = fix_certificates d2" by (auto simp: patch_Inr)
  have "fix_organization d' = Inr d'"
    unfolding fix_organization_def using patch_organization [OF p]
    by (intro assign_noop) (simp_all add: organization_path_def)
  moreover have "add_discovery d' = Inr d'"
    unfolding add_discovery_def using patch_discover [OF p]
    by (intro assign_noop) (simp_all add: discover_path_def)
  moreover have "fix_certificates d' = d'" unfolding f by (rule fix_certificates_idem)
  ultimately show ?thesis by (simp add: patch_def)
qed


lemma at_path_parent_is_dict:
  "at_path x (p @ Key k # q) \<noteq> None \<Longrightarrow> is_dict (at_path x p)"
proof (induction x p rule: at_path.induct)
  case (1 v)
  then show ?case by (cases v) auto
qed (auto split: option.splits if_splits)

lemma strict_prefix_keys:
  "strict_prefix p (map Key keys) \<Longrightarrow> \<exists>k q. map Key keys = p @ Key k # q"
proof -
  assume "strict_prefix p (map Key keys)"
  then obtain r where r: "map Key keys = p @ r" "r \<noteq> []"
    by (auto simp: strict_prefix_def prefix_def)
  then obtain st q where sq: "r = st # q" by (cases r) auto
  have "st \<in> set (map Key keys)" using r sq by simp
  then obtain k where "st = Key k" by auto
  with r sq show ?thesis by auto
qed

lemma assign_dicts_after:
  assumes "keys \<noteq> []" and "assign d keys v = Inr d'" and "strict_prefix p (map Key keys)"
  shows "is_dict (at_path d' p)"
proof -
  from strict_prefix_keys [OF assms(3)] obtain k q where q: "map Key keys = p @ Key k # q"
    by blast
  have "at_path d' (p @ Key k # q) = Some v" using assign_target [OF assms(1,2)] q by simp
  then show ?thesis by (intro at_path_parent_is_dict [of d' p k q]) simp
qed

lemma fix_field_keeps_scalar: "is_scalar v \<Longrightarrow> \<not> pem_field p v \<Longrightarrow> fix_field p v = v"
  by (cases v) (auto simp: fix_field_def pem_field_def)

lemma fix_field_dict: "is_dict (Some (fix_field p v)) \<longleftrightarrow> is_dict (Some v)"
  by (cases v) (auto simp: fix_field_def)

lemma map_fst_fix_items: "map fst (fix_items kvs) = map fst kvs"
proof (induction kvs)
  case Nil
  show ?case by simp
next
  case (Cons kv kvs)
  obtain key val where kv: "kv = (key, val)" by (cases kv)
  show ?case using Cons unfolding kv by (cases val) auto
qed

lemma fix_field_JObj: "fix_field p (JObj kvs) = JObj (fix_items kvs)"
  by (simp add: fix_field_def)

lemma fix_field_JArr: "fix_field p (JArr xs) = JArr (fix_list xs)"
  by (simp add: fix_field_def)

lemma fix_field_list: "is_list (Some (fix_field p v)) \<longleftrightarrow> is_list (Some v)"
  by (cases v) (auto simp: fix_field_def)

lemma prefix_keys_update: "prefix (map fst kvs) (map fst (AList.update k x kvs))"
  by (simp add: update_keys)

lemma assign_prefix_update:
  "keys \<noteq> [] \<Longrightarrow> assign d keys v = Inr d' \<Longrightarrow> map Key keys = p @ Key k # q
   \<Longrightarrow> at_path d p = Some (JObj kvs)
   \<Longrightarrow> \<exists>x. at_path d' p = Some (JObj (AList.update k x kvs))"
proof (induction d keys v arbitrary: d' p rule: assign.induct)
  case (1 d v)
  then show ?case by simp
next
  case (2 d key v)
  from "2.prems"(3) have "p = []" "k = key" by (cases p; simp)+
  then show ?case using "2.prems" by (auto simp: setitem_Inr)
next
  case (3 d key k2 keys v)
  from "3.prems"(2) obtain sub sub' where
    g: "getitem d key = Inr sub" and a: "assign sub (k2 # keys) v = Inr sub'"
    and s: "setitem d key sub' = Inr d'"
    by (auto split: sum.splits)
  from g s obtain kvs0 where d: "d = JObj kvs0" "map_of kvs0 key = Some sub"
    "d' = JObj (AList.update key sub' kvs0)"
    by (auto simp: getitem_Inr setitem_Inr)
  show ?case
  proof (cases p)
    case Nil
    then show ?thesis using "3.prems" d by auto
  next
    case (Cons st p')
    with "3.prems"(3) have st: "st = Key key" and r: "map Key (k2 # keys) = p' @ Key k # q"
      by auto
    have "at_path sub p' = Some (JObj kvs)" using "3.prems"(4) Cons st d by simp
    from "3.IH" [OF g _ a r this] obtain x where "at_path sub' p' = Some (JObj (AList.update k x kvs))"
      by auto
    then show ?thesis using Cons st d by (auto simp: update_conv')
  qed
qed

lemma assign_keeps_keys:
  assumes "keys \<noteq> []" and "assign d keys v = Inr d'" and "\<not> prefix (map Key keys) p"
    and "at_path d p = Some (JObj kvs)"
  shows "\<exists>kvs'. at_path d' p = Some (JObj kvs') \<and> prefix (map fst kvs) (map fst kvs')
    \<and> (\<not> strict_prefix p (map Key keys) \<longrightarrow> kvs' = kvs)"
proof (cases "strict_prefix p (map Key keys)")
  case True
  from strict_prefix_keys [OF True] obtain k q where "map Key keys = p @ Key k # q" by blast
  from assign_prefix_update [OF assms(1,2) this assms(4)]
  obtain x where x: "at_path d' p = Some (JObj (AList.update k x kvs))" ..
  show ?thesis
    by (rule exI [of _ "AList.update k x kvs"]) (simp add: x True prefix_keys_update)
next
  case False
  then have "\<not> prefix p (map Key keys)" using assms(3) by (auto simp: strict_prefix_def)
  from assign_frame [OF assms(1,2,3) this] assms(4) False show ?thesis by simp
qed

section \<open>Lemmas about the examples and the certificate fields\<close>

lemma example_simps:
  "isspace c \<longleftrightarrow>
     (9 \<le> c \<and> c \<le> 13) \<or> (28 \<le> c \<and> c \<le> 32) \<or> c = 133 \<or> c = 160 \<or> c = 5760
     \<or> (8192 \<le> c \<and> c \<le> 8202) \<or> c = 8232 \<or> c = 8233 \<or> c = 8239 \<or> c = 8287
     \<or> c = 12288"
  "NL = 10" "escaped_nl = [92, 110]" "marker = str ''-----BEGIN CERTIFICATE-----''"
  "flatten v = join escaped_nl (split NL (strip v))"
  "strip s = rev (dropWhile isspace (rev (dropWhile isspace s)))"
  "spec_joined_lines s = join escaped_nl (split NL s)"
  by (simp_all add: isspace_def NL_def escaped_nl_def marker_def flatten_def strip_def
      spec_joined_lines_def)

lemma fix_padded_doc:
  "fix_certificates padded_doc = JObj [(str ''pem'', JStr (marker @ escaped_nl @ str ''ABC''))]"
  by (simp add: padded_doc_def padded_pem_def example_simps str_simps)

lemma spec_padded_pem: "spec_joined_lines padded_pem = 32 # marker @ escaped_nl @ str ''ABC''"
  by (simp add: padded_pem_def example_simps str_simps)

lemma contains_padded_pem: "contains marker padded_pem"
  by (simp add: padded_pem_def example_simps str_simps)

lemma contains_newline_pem: "contains marker newline_pem"
  by (simp add: newline_pem_def example_simps str_simps)

lemma patch_profile_doc: "patch profile_doc = Inr profile_fixed"
  by (simp add: patch_def fix_organization_def add_discovery_def organization_path_def
      discover_path_def discovery_def profile_doc_def profile_fixed_def newline_pem_def
      example_simps str_simps)

lemma pem_field_rewritten:
  assumes "at_path d (p @ [Key (str ''pem'')]) = Some (JStr s)" and "contains marker s"
  shows "at_path (fix_certificates d) (p @ [Key (str ''pem'')]) = Some (JStr (flatten s))"
  using assms by (simp add: at_path_fix fix_field_def)

section \<open>Lemmas about the run\<close>

lemma paths_distinct:
  "source_path \<noteq> backup_path" "output_path \<noteq> backup_path" "output_path \<noteq> source_path"
  by (simp_all add: source_path_def backup_path_def output_path_def)

lemma cp_files:
  "files (fst (os_system_cp src dst fs)) p =
     (if p = dst \<and> files fs src \<noteq> None \<and> readable fs src \<and> writable fs dst then files fs src
      else files fs p)"
  by (auto simp: os_system_cp_def)

lemma cp_flags:
  "readable (fst (os_system_cp src dst fs)) = readable fs"
  "writable (fst (os_system_cp src dst fs)) = writable fs"
  by (simp_all add: os_system_cp_def)

lemma cp_fails:
  "files fs src = None \<or> \<not> readable fs src \<or> \<not> writable fs dst
   \<Longrightarrow> os_system_cp src dst fs = (fs, 1)"
  by (auto simp: os_system_cp_def)

lemma open_read_after_cp:
  "open_read (fst (os_system_cp source_path backup_path fs)) source_path = open_read fs source_path"
  using paths_distinct by (auto simp: open_read_def cp_files cp_flags split: option.splits)

lemma load_after_cp:
  "load decode loads (fst (os_system_cp source_path backup_path fs)) = load decode loads fs"
  by (simp add: load_def open_read_after_cp)

lemma open_read_Inl:
  "open_read fs path = Inl e \<Longrightarrow>
     (files fs path = None \<or> \<not> readable fs path) \<and> (e = FileNotFoundError \<or> e = PermissionError)"
  by (auto simp: open_read_def split: option.splits if_splits)


lemma run_cases:
  "run decode loads dumps fs =
     (let fs1 = fst (os_system_cp source_path backup_path fs) in
      case load decode loads fs of
        Inl e \<Rightarrow> (fs1, Inl e)
      | Inr doc \<Rightarrow>
          (case patch doc of
             Inl e \<Rightarrow> (fs1, Inl e)
           | Inr fixed \<Rightarrow>
               if writable fs output_path
               then (fs1\<lparr>files := (files fs1)(output_path \<mapsto> dumps fixed)\<rparr>, Inr ())
               else (fs1, Inl PermissionError)))"
  by (simp add: run_def Let_def load_after_cp open_write_def cp_flags split: sum.splits)

lemma run_locked_backup_fs:
  "run example_decode example_loads example_dumps locked_backup_fs =
     (locked_backup_fs\<lparr>files := (files locked_backup_fs)(output_path \<mapsto> scenario_fixed_bytes)\<rparr>,
      Inr ())"
proof -
  have c: "os_system_cp source_path backup_path locked_backup_fs = (locked_backup_fs, 1)"
    by (rule cp_fails) (simp add: locked_backup_fs_def)
  have l: "load example_decode example_loads locked_backup_fs = Inr scenario_doc"
    by (simp add: load_def open_read_def locked_backup_fs_def example_decode_def example_loads_def)
  have w: "writable locked_backup_fs output_path"
    using paths_distinct by (simp add: locked_backup_fs_def)
  show ?thesis
    by (simp add: run_cases c l w patch_scenario_doc example_dumps_def)
qed


lemma run_empty_fs:
  "run example_decode example_loads example_dumps empty_fs = (empty_fs, Inl FileNotFoundError)"
proof -
  have c: "os_system_cp source_path backup_path empty_fs = (empty_fs, 1)"
    by (rule cp_fails) (simp add: empty_fs_def)
  have l: "load example_decode example_loads empty_fs = Inl FileNotFoundError"
    by (simp add: load_def open_read_def empty_fs_def)
  show ?thesis by (simp add: run_cases c l)
qed

section \<open>The properties of the specification\<close>




text \<open>
  A certificate text with a blank in front: the script strips the blank, so the value it
  stores is not the lines of the original joined by backslash-\<open>n\<close>.
\<close>

theorem pem_joined_original_lines_counterexample:
  "at_path padded_doc [Key (str ''pem'')] = Some (JStr padded_pem)
   \<and> contains marker padded_pem \<and> NL \<in> set padded_pem
   \<and> at_path (fix_certificates padded_doc) [Key (str ''pem'')]
       = Some (JStr (marker @ escaped_nl @ str ''ABC''))
   \<and> spec_joined_lines padded_pem = 32 # marker @ escaped_nl @ str ''ABC''
   \<and> at_path (fix_certificates padded_doc) [Key (str ''pem'')]
       \<noteq> Some (JStr (spec_joined_lines padded_pem))"
proof -
  have "at_path padded_doc [Key (str ''pem'')] = Some (JStr padded_pem)"
    by (simp add: padded_doc_def)
  moreover have "NL \<in> set padded_pem" by (simp add: padded_pem_def)
  moreover have "marker @ escaped_nl @ str ''ABC'' \<noteq> 32 # marker @ escaped_nl @ str ''ABC''"
    by (simp add: example_simps str_simps)
  ultimately show ?thesis
    using contains_padded_pem by (simp add: fix_padded_doc spec_padded_pem)
qed

text \<open>
  C2, as the code has it: for every map entry keyed \<^verbatim>\<open>pem\<close> whose string value contains
  the marker and a line feed, the value after the certificate pass has no line feed and
  is the lines of the stripped value (leading and trailing whitespace removed) joined by
  the two characters backslash and \<open>n\<close>.
\<close>

theorem pem_flattened_after_strip:
  "at_path d (p @ [Key (str ''pem'')]) = Some (JStr s) \<Longrightarrow> contains marker s \<Longrightarrow> NL \<in> set s
   \<Longrightarrow> \<exists>t. at_path (fix_certificates d) (p @ [Key (str ''pem'')]) = Some (JStr t)
         \<and> NL \<notin> set t \<and> t = spec_joined_lines (strip s)"
proof -
  assume a: "at_path d (p @ [Key (str ''pem'')]) = Some (JStr s)" and c: "contains marker s"
  have "NL \<notin> set (flatten s)" by (simp add: flatten_replace NL_notin_replace)
  moreover have "flatten s = spec_joined_lines (strip s)"
    by (simp add: flatten_def spec_joined_lines_def)
  ultimately show ?thesis using pem_field_rewritten [OF a c] by simp
qed

text \<open>The padded certificate is such an entry.\<close>

theorem pem_flattened_after_strip_witness:
  "at_path padded_doc ([] @ [Key (str ''pem'')]) = Some (JStr padded_pem)
   \<and> contains marker padded_pem \<and> NL \<in> set padded_pem
   \<and> (\<exists>t. at_path (fix_certificates padded_doc) ([] @ [Key (str ''pem'')]) = Some (JStr t)
         \<and> NL \<notin> set t \<and> t = spec_joined_lines (strip padded_pem))"
proof -
  have a: "at_path padded_doc ([] @ [Key (str ''pem'')]) = Some (JStr padded_pem)"
    by (simp add: padded_doc_def)
  have n: "NL \<in> set padded_pem" by (simp add: padded_pem_def)
  show ?thesis
    using a n contains_padded_pem pem_flattened_after_strip [OF a contains_padded_pem n]
    by simp
qed

text \<open>
  C3: after a patch, at every path that is not at or below \<^verbatim>\<open>client.organization\<close> or
  \<^verbatim>\<open>client.connection.timeout.discover\<close>, a field exists exactly when it existed before;
  a field that held a number, string, boolean or null holds the same value, unless it
  is a \<^verbatim>\<open>pem\<close> entry whose string contains the marker; a field is a map exactly when it
  was a map and a list exactly when it was a list; a map keeps its keys in their order,
  with nothing added unless it lies on the way to one of the two assigned places, where
  new keys come after the old ones; and a list keeps its length.
\<close>

theorem other_fields_unchanged:
  "patch d = Inr d' \<Longrightarrow> \<not> prefix (map Key organization_path) p
   \<Longrightarrow> \<not> prefix (map Key discover_path) p
   \<Longrightarrow> (at_path d' p = None \<longleftrightarrow> at_path d p = None)
       \<and> (\<forall>v. at_path d p = Some v \<and> is_scalar v \<and> \<not> pem_field p v \<longrightarrow> at_path d' p = Some v)
       \<and> (is_dict (at_path d' p) \<longleftrightarrow> is_dict (at_path d p))
       \<and> (is_list (at_path d' p) \<longleftrightarrow> is_list (at_path d p))
       \<and> (\<forall>kvs. at_path d p = Some (JObj kvs)
            \<longrightarrow> (\<exists>kvs'. at_path d' p = Some (JObj kvs') \<and> prefix (map fst kvs) (map fst kvs')
                  \<and> (\<not> strict_prefix p (map Key organization_path)
                       \<and> \<not> strict_prefix p (map Key discover_path)
                      \<longrightarrow> map fst kvs' = map fst kvs)))
       \<and> (\<forall>xs. at_path d p = Some (JArr xs)
            \<longrightarrow> (\<exists>xs'. at_path d' p = Some (JArr xs') \<and> length xs' = length xs))"
proof -
  assume pa: "patch d = Inr d'" and no: "\<not> prefix (map Key organization_path) p"
    and nd: "\<not> prefix (map Key discover_path) p"
  from pa obtain d1 d2 where o: "assign d organization_path (JStr (str ''Org1MSP'')) = Inr d1"
    and a: "assign d1 discover_path discovery = Inr d2" and f: "d' = fix_certificates d2"
    by (auto simp: patch_Inr fix_organization_def add_discovery_def)
  have one: "organization_path \<noteq> []" and dne: "discover_path \<noteq> []"
    by (simp_all add: organization_path_def discover_path_def)
  have fx: "at_path d' p = map_option (fix_field p) (at_path d2 p)"
    unfolding f by (rule at_path_fix)
  have step1: "is_dict (at_path d p) \<and> is_dict (at_path d1 p)"
    if "strict_prefix p (map Key organization_path)"
    using that assign_dicts [OF one o] assign_dicts_after [OF one o] by blast
  have step1': "at_path d1 p = at_path d p" if "\<not> strict_prefix p (map Key organization_path)"
    using that no assign_frame [OF one o no] by (auto simp: strict_prefix_def)
  have step2: "is_dict (at_path d1 p) \<and> is_dict (at_path d2 p)"
    if "strict_prefix p (map Key discover_path)"
    using that assign_dicts [OF dne a] assign_dicts_after [OF dne a] by blast
  have step2': "at_path d2 p = at_path d1 p" if "\<not> strict_prefix p (map Key discover_path)"
    using that nd assign_frame [OF dne a nd] by (auto simp: strict_prefix_def)
  have keys: "\<exists>kvs'. at_path d' p = Some (JObj kvs') \<and> prefix (map fst kvs) (map fst kvs')
      \<and> (\<not> strict_prefix p (map Key organization_path)
           \<and> \<not> strict_prefix p (map Key discover_path) \<longrightarrow> map fst kvs' = map fst kvs)"
    if k: "at_path d p = Some (JObj kvs)" for kvs
  proof -
    from assign_keeps_keys [OF one o no k] obtain kvs1 where
      k1: "at_path d1 p = Some (JObj kvs1)" "prefix (map fst kvs) (map fst kvs1)"
      "\<not> strict_prefix p (map Key organization_path) \<longrightarrow> kvs1 = kvs" by blast
    from assign_keeps_keys [OF dne a nd k1(1)] obtain kvs2 where
      k2: "at_path d2 p = Some (JObj kvs2)" "prefix (map fst kvs1) (map fst kvs2)"
      "\<not> strict_prefix p (map Key discover_path) \<longrightarrow> kvs2 = kvs1" by blast
    have "at_path d' p = Some (JObj (fix_items kvs2))" using fx k2(1) by (simp add: fix_field_JObj)
    moreover have "prefix (map fst kvs) (map fst (fix_items kvs2))"
      using k1(2) k2(2) prefix_order.trans [of "map fst kvs" "map fst kvs1" "map fst kvs2"]
      by (simp add: map_fst_fix_items)
    moreover have "\<not> strict_prefix p (map Key organization_path)
        \<and> \<not> strict_prefix p (map Key discover_path) \<longrightarrow> map fst (fix_items kvs2) = map fst kvs"
      using k1(3) k2(3) by (auto simp: map_fst_fix_items)
    ultimately show ?thesis by blast
  qed
  have main: "(at_path d' p = None \<longleftrightarrow> at_path d p = None)
       \<and> (\<forall>v. at_path d p = Some v \<and> is_scalar v \<and> \<not> pem_field p v \<longrightarrow> at_path d' p = Some v)
       \<and> (is_dict (at_path d' p) \<longleftrightarrow> is_dict (at_path d p))
       \<and> (is_list (at_path d' p) \<longleftrightarrow> is_list (at_path d p))
       \<and> (\<forall>xs. at_path d p = Some (JArr xs)
            \<longrightarrow> (\<exists>xs'. at_path d' p = Some (JArr xs') \<and> length xs' = length xs))"
  proof (cases "strict_prefix p (map Key organization_path) \<or> strict_prefix p (map Key discover_path)")
    case False
    then have eq: "at_path d' p = map_option (fix_field p) (at_path d p)"
      using fx step1' step2' by simp
    show ?thesis
    proof (cases "at_path d p")
      case None
      then show ?thesis using eq by simp
    next
      case (Some v)
      then have e: "at_path d' p = Some (fix_field p v)" using eq by simp
      show ?thesis unfolding Some e
      proof (intro conjI allI impI)
        show "Some (fix_field p v) = None \<longleftrightarrow> Some v = None" by simp
      next
        fix w assume "Some v = Some w \<and> is_scalar w \<and> \<not> pem_field p w"
        then show "Some (fix_field p v) = Some w" by (simp add: fix_field_keeps_scalar)
      next
        show "is_dict (Some (fix_field p v)) \<longleftrightarrow> is_dict (Some v)" by (rule fix_field_dict)
      next
        show "is_list (Some (fix_field p v)) \<longleftrightarrow> is_list (Some v)" by (rule fix_field_list)
      next
        fix xs assume "Some v = Some (JArr xs)"
        then show "\<exists>xs'. Some (fix_field p v) = Some (JArr xs') \<and> length xs' = length xs"
          by (simp add: fix_field_JArr fix_list_map)
      qed
    qed
  next
    case True
    have "is_dict (at_path d p) \<and> is_dict (at_path d2 p)"
      using True step1 step1' step2 step2' by metis
    then obtain kvs kvs2 where "at_path d p = Some (JObj kvs)" "at_path d2 p = Some (JObj kvs2)"
      by (metis is_dict.elims(2))
    then show ?thesis using fx by (simp add: fix_field_JObj)
  qed
  from main have m1: "at_path d' p = None \<longleftrightarrow> at_path d p = None"
    and m2: "\<forall>v. at_path d p = Some v \<and> is_scalar v \<and> \<not> pem_field p v \<longrightarrow> at_path d' p = Some v"
    and m3: "is_dict (at_path d' p) \<longleftrightarrow> is_dict (at_path d p)"
    and m4: "is_list (at_path d' p) \<longleftrightarrow> is_list (at_path d p)"
    and m5: "\<forall>xs. at_path d p = Some (JArr xs)
            \<longrightarrow> (\<exists>xs'. at_path d' p = Some (JArr xs') \<and> length xs' = length xs)"
    by (rule conjunct1, rule conjunct2 [THEN conjunct1],
        rule conjunct2 [THEN conjunct2, THEN conjunct1],
        rule conjunct2 [THEN conjunct2, THEN conjunct2, THEN conjunct1],
        rule conjunct2 [THEN conjunct2, THEN conjunct2, THEN conjunct2])
  have m6: "\<forall>kvs. at_path d p = Some (JObj kvs)
            \<longrightarrow> (\<exists>kvs'. at_path d' p = Some (JObj kvs') \<and> prefix (map fst kvs) (map fst kvs')
                  \<and> (\<not> strict_prefix p (map Key organization_path)
                       \<and> \<not> strict_prefix p (map Key discover_path)
                      \<longrightarrow> map fst kvs' = map fst kvs))"
  proof (intro allI impI)
    fix kvs assume "at_path d p = Some (JObj kvs)"
    then show "\<exists>kvs'. at_path d' p = Some (JObj kvs') \<and> prefix (map fst kvs) (map fst kvs')
                  \<and> (\<not> strict_prefix p (map Key organization_path)
                       \<and> \<not> strict_prefix p (map Key discover_path)
                      \<longrightarrow> map fst kvs' = map fst kvs)" by (rule keys)
  qed
  from m1 m2 m3 m4 m6 m5 show ?thesis by (intro conjI)
qed

text \<open>The name and the list of peers of the example profile are such fields.\<close>

theorem other_fields_unchanged_witness:
  "patch profile_doc = Inr profile_fixed
   \<and> \<not> prefix (map Key organization_path) [Key (str ''name'')]
   \<and> \<not> prefix (map Key discover_path) [Key (str ''name'')]
   \<and> at_path profile_doc [Key (str ''name'')] = Some (JStr (str ''net''))
   \<and> is_scalar (JStr (str ''net'')) \<and> \<not> pem_field [Key (str ''name'')] (JStr (str ''net''))
   \<and> at_path profile_fixed [Key (str ''name'')] = Some (JStr (str ''net''))
   \<and> \<not> prefix (map Key organization_path) [Key (str ''peers'')]
   \<and> \<not> prefix (map Key discover_path) [Key (str ''peers'')]
   \<and> at_path profile_doc [Key (str ''peers'')]
       = Some (JArr [JObj [(str ''pem'', JStr newline_pem)], JObj [(str ''pem'', JStr (str ''none''))]])
   \<and> (\<exists>xs'. at_path profile_fixed [Key (str ''peers'')] = Some (JArr xs') \<and> length xs' = 2)
   \<and> is_list (at_path profile_fixed [Key (str ''peers'')])"
proof -
  have a: "\<not> prefix (map Key organization_path) [Key (str ''name'')]"
    by (simp add: organization_path_def str_simps)
  have b: "\<not> prefix (map Key discover_path) [Key (str ''name'')]"
    by (simp add: discover_path_def str_simps)
  have c: "at_path profile_doc [Key (str ''name'')] = Some (JStr (str ''net''))"
    by (simp add: profile_doc_def)
  have e: "\<not> pem_field [Key (str ''name'')] (JStr (str ''net''))"
    by (simp add: pem_field_def str_simps)
  from other_fields_unchanged [OF patch_profile_doc a b]
  have "\<forall>v. at_path profile_doc [Key (str ''name'')] = Some v \<and> is_scalar v
      \<and> \<not> pem_field [Key (str ''name'')] v \<longrightarrow> at_path profile_fixed [Key (str ''name'')] = Some v"
    by (rule conjunct2 [THEN conjunct1])
  with c e have r: "at_path profile_fixed [Key (str ''name'')] = Some (JStr (str ''net''))"
    by simp
  have s: "is_scalar (JStr (str ''net''))" by simp
  have a': "\<not> prefix (map Key organization_path) [Key (str ''peers'')]"
    by (simp add: organization_path_def str_simps)
  have b': "\<not> prefix (map Key discover_path) [Key (str ''peers'')]"
    by (simp add: discover_path_def str_simps)
  have c': "at_path profile_doc [Key (str ''peers'')]
       = Some (JArr [JObj [(str ''pem'', JStr newline_pem)], JObj [(str ''pem'', JStr (str ''none''))]])"
    by (simp add: profile_doc_def str_simps)
  note t = other_fields_unchanged [OF patch_profile_doc a' b']
  from t have "\<forall>xs. at_path profile_doc [Key (str ''peers'')] = Some (JArr xs)
      \<longrightarrow> (\<exists>xs'. at_path profile_fixed [Key (str ''peers'')] = Some (JArr xs')
            \<and> length xs' = length xs)"
    by (rule conjunct2 [THEN conjunct2, THEN conjunct2, THEN conjunct2, THEN conjunct2])
  with c' have l: "\<exists>xs'. at_path profile_fixed [Key (str ''peers'')] = Some (JArr xs') \<and> length xs' = 2"
    by (simp add: numeral_2_eq_2)
  from t have "is_list (at_path profile_fixed [Key (str ''peers'')])
      \<longleftrightarrow> is_list (at_path profile_doc [Key (str ''peers'')])"
    by (rule conjunct2 [THEN conjunct2, THEN conjunct2, THEN conjunct1])
  with c' have k: "is_list (at_path profile_fixed [Key (str ''peers'')])" by simp
  from patch_profile_doc a b c s e r a' b' c' l k show ?thesis by (intro conjI)
qed

text \<open>
  C4: the patch is idempotent: patching a document that a patch returned succeeds and
  returns the same document.
\<close>

theorem patch_idempotent: "patch d = Inr d' \<Longrightarrow> patch d' = Inr d'"
  by (rule patch_idem)

text \<open>The patched scenario is patched to itself.\<close>

theorem patch_idempotent_witness:
  "patch scenario_doc = Inr scenario_fixed \<and> patch scenario_fixed = Inr scenario_fixed"
  using patch_idempotent [OF patch_scenario_doc] patch_scenario_doc by simp

text \<open>
  With an old backup that may not be overwritten the copy fails, and the script still
  patches the profile and writes the output.
\<close>

theorem failed_backup_aborts_counterexample:
  "os_system_cp source_path backup_path locked_backup_fs = (locked_backup_fs, 1)
   \<and> snd (run example_decode example_loads example_dumps locked_backup_fs) = Inr ()
   \<and> files (fst (run example_decode example_loads example_dumps locked_backup_fs)) output_path
       = Some scenario_fixed_bytes"
proof -
  have "os_system_cp source_path backup_path locked_backup_fs = (locked_backup_fs, 1)"
    by (rule cp_fails) (simp add: locked_backup_fs_def)
  then show ?thesis by (simp add: run_locked_backup_fs)
qed

text \<open>
  C5, as the code has it: when the source file cannot be read, the run ends at line 10
  with \<^verbatim>\<open>FileNotFoundError\<close> or \<^verbatim>\<open>PermissionError\<close> and the file system is untouched;
  the exit status of the copy is dropped, so when only the backup path cannot be
  written the script goes on, patches the profile and writes the output.
\<close>

theorem unreadable_source_aborts_unwritable_backup_ignored:
  "(\<forall>e. open_read fs source_path = Inl e
      \<longrightarrow> run decode loads dumps fs = (fs, Inl e)
          \<and> (e = FileNotFoundError \<or> e = PermissionError))
   \<and> (\<forall>doc fixed. \<not> writable fs backup_path \<and> load decode loads fs = Inr doc
          \<and> patch doc = Inr fixed \<and> writable fs output_path
      \<longrightarrow> run decode loads dumps fs
          = (fs\<lparr>files := (files fs)(output_path \<mapsto> dumps fixed)\<rparr>, Inr ()))"
proof (intro conjI allI impI)
  fix e assume r: "open_read fs source_path = Inl e"
  then have "files fs source_path = None \<or> \<not> readable fs source_path"
    and e: "e = FileNotFoundError \<or> e = PermissionError"
    using open_read_Inl by blast+
  then have "os_system_cp source_path backup_path fs = (fs, 1)" by (intro cp_fails) auto
  moreover have "load decode loads fs = Inl e" using r by (simp add: load_def)
  ultimately show "run decode loads dumps fs = (fs, Inl e)" by (simp add: run_cases)
  show "e = FileNotFoundError \<or> e = PermissionError" by (rule e)
next
  fix doc fixed
  assume a: "\<not> writable fs backup_path \<and> load decode loads fs = Inr doc
      \<and> patch doc = Inr fixed \<and> writable fs output_path"
  then have "os_system_cp source_path backup_path fs = (fs, 1)" by (intro cp_fails) auto
  then show "run decode loads dumps fs
      = (fs\<lparr>files := (files fs)(output_path \<mapsto> dumps fixed)\<rparr>, Inr ())"
    using a by (simp add: run_cases)
qed

text \<open>Both cases occur: no profile at all, and a backup that may not be overwritten.\<close>

theorem unreadable_source_aborts_unwritable_backup_ignored_witness:
  "open_read empty_fs source_path = Inl FileNotFoundError
   \<and> run example_decode example_loads example_dumps empty_fs = (empty_fs, Inl FileNotFoundError)
   \<and> \<not> writable locked_backup_fs backup_path
   \<and> load example_decode example_loads locked_backup_fs = Inr scenario_doc
   \<and> patch scenario_doc = Inr scenario_fixed
   \<and> writable locked_backup_fs output_path
   \<and> run example_decode example_loads example_dumps locked_backup_fs
       = (locked_backup_fs\<lparr>files := (files locked_backup_fs)
            (output_path \<mapsto> example_dumps scenario_fixed)\<rparr>, Inr ())"
proof -
  have r: "open_read empty_fs source_path = Inl FileNotFoundError"
    by (simp add: open_read_def empty_fs_def)
  have b: "\<not> writable locked_backup_fs backup_path" by (simp add: locked_backup_fs_def)
  have l: "load example_decode example_loads locked_backup_fs = Inr scenario_doc"
    by (simp add: load_def open_read_def locked_backup_fs_def example_decode_def example_loads_def)
  have w: "writable locked_backup_fs output_path"
    using paths_distinct by (simp add: locked_backup_fs_def)
  note t1 = unreadable_source_aborts_unwritable_backup_ignored
    [of empty_fs example_decode example_loads example_dumps]
  note t2 = unreadable_source_aborts_unwritable_backup_ignored
    [of locked_backup_fs example_decode example_loads example_dumps]
  from t1 r have 1: "run example_decode example_loads example_dumps empty_fs
      = (empty_fs, Inl FileNotFoundError)" by blast
  from t2 b l w patch_scenario_doc
  have 2: "run example_decode example_loads example_dumps locked_backup_fs
       = (locked_backup_fs\<lparr>files := (files locked_backup_fs)
            (output_path \<mapsto> example_dumps scenario_fixed)\<rparr>, Inr ())" by blast
  from r 1 b l patch_scenario_doc w 2 show ?thesis by (intro conjI)
qed

text \<open>
  C6: on a document with a \<^verbatim>\<open>client\<close> map the assignment of line 17 succeeds and leaves
  \<^verbatim>\<open>client.organization\<close> equal to \<^verbatim>\<open>"Org1MSP"\<close>, every document the whole patch
  returns has it, and when \<^verbatim>\<open>client\<close> is absent or not a map the assignment, and with
  it the patch, fails.
\<close>

theorem organization_set:
  "(is_dict (at_path d [Key (str ''client'')])
      \<longrightarrow> (\<exists>d1. fix_organization d = Inr d1
            \<and> at_path d1 (map Key organization_path) = Some (JStr (str ''Org1MSP''))))
   \<and> (\<forall>d'. patch d = Inr d'
      \<longrightarrow> at_path d' (map Key organization_path) = Some (JStr (str ''Org1MSP'')))
   \<and> (\<not> is_dict (at_path d [Key (str ''client'')])
      \<longrightarrow> (\<exists>e. fix_organization d = Inl e \<and> patch d = Inl e))"
proof (intro conjI impI allI)
  assume c: "is_dict (at_path d [Key (str ''client'')])"
  then have "is_dict (at_path d [])" by (cases d) auto
  with c have "\<exists>d1. fix_organization d = Inr d1"
    unfolding fix_organization_def
    by (intro assign_succeeds) (auto simp: organization_path_def strict_prefix_Cons_cases)
  then obtain d1 where o: "fix_organization d = Inr d1" ..
  then have "at_path d1 (map Key organization_path) = Some (JStr (str ''Org1MSP''))"
    unfolding fix_organization_def by (intro assign_target) (simp_all add: organization_path_def)
  with o show "\<exists>d1. fix_organization d = Inr d1
      \<and> at_path d1 (map Key organization_path) = Some (JStr (str ''Org1MSP''))" by blast
next
  fix d' assume "patch d = Inr d'"
  then show "at_path d' (map Key organization_path) = Some (JStr (str ''Org1MSP''))"
    by (rule patch_organization)
next
  assume n: "\<not> is_dict (at_path d [Key (str ''client'')])"
  have "\<not> (\<exists>d1. fix_organization d = Inr d1)"
  proof
    assume "\<exists>d1. fix_organization d = Inr d1"
    then obtain d1 where "assign d organization_path (JStr (str ''Org1MSP'')) = Inr d1"
      by (auto simp: fix_organization_def)
    then have "is_dict (at_path d [Key (str ''client'')])"
      by (rule assign_dicts [rotated]) (simp_all add: organization_path_def)
    with n show False ..
  qed
  then obtain e where "fix_organization d = Inl e" by (cases "fix_organization d") auto
  then show "\<exists>e. fix_organization d = Inl e \<and> patch d = Inl e" by (auto simp: patch_def)
qed

text \<open>The scenario document has a \<^verbatim>\<open>client\<close> map; a list as document has none.\<close>

theorem organization_set_witness:
  "is_dict (at_path scenario_doc [Key (str ''client'')])
   \<and> (\<exists>d1. fix_organization scenario_doc = Inr d1
        \<and> at_path d1 (map Key organization_path) = Some (JStr (str ''Org1MSP'')))
   \<and> patch scenario_doc = Inr scenario_fixed
   \<and> at_path scenario_fixed (map Key organization_path) = Some (JStr (str ''Org1MSP''))
   \<and> \<not> is_dict (at_path (JArr []) [Key (str ''client'')])
   \<and> (\<exists>e. fix_organization (JArr []) = Inl e \<and> patch (JArr []) = Inl e)"
proof -
  have a: "is_dict (at_path scenario_doc [Key (str ''client'')])"
    by (simp add: scenario_doc_def)
  have b: "\<not> is_dict (at_path (JArr []) [Key (str ''client'')])" by simp
  show ?thesis
    using a b organization_set [of scenario_doc] organization_set [of "JArr []"] patch_scenario_doc
    by simp
qed




text \<open>
  C8: the scenario \<^verbatim>\<open>{"client":{"organization":"X","connection":{"timeout":{}}}}\<close> is
  patched to the document with \<^verbatim>\<open>client.organization\<close> equal to \<^verbatim>\<open>"Org1MSP"\<close>, the
  discovery map under \<^verbatim>\<open>client.connection.timeout.discover\<close>, and nothing else changed.
\<close>

theorem scenario_patched:
  "patch scenario_doc = Inr scenario_fixed
   \<and> at_path scenario_fixed (map Key organization_path) = Some (JStr (str ''Org1MSP''))
   \<and> at_path scenario_fixed (map Key discover_path) = Some discovery
   \<and> scenario_fixed =
       JObj [(str ''client'',
         JObj [(str ''organization'', JStr (str ''Org1MSP'')),
               (str ''connection'',
                 JObj [(str ''timeout'', JObj [(str ''discover'', discovery)])])])]"
  using patch_scenario_doc
  by (simp add: scenario_fixed_def discovery_def organization_path_def discover_path_def str_simps)

text \<open>
  C9: for every map entry keyed \<^verbatim>\<open>pem\<close> whose string value contains the marker, the value
  after the certificate pass is the original with leading and trailing whitespace
  removed and every remaining line feed replaced by backslash and \<open>n\<close>; a line feed at
  the end of the original is dropped, the result being that of the text without it.
\<close>

theorem pem_rewritten_strip_replace:
  "at_path d (p @ [Key (str ''pem'')]) = Some (JStr s) \<Longrightarrow> contains marker s
   \<Longrightarrow> at_path (fix_certificates d) (p @ [Key (str ''pem'')]) = Some (JStr (replace_nl (strip s)))
       \<and> (\<forall>s0. s = s0 @ [NL]
            \<longrightarrow> at_path (fix_certificates d) (p @ [Key (str ''pem'')])
                 = Some (JStr (replace_nl (strip s0))))"
proof -
  assume a: "at_path d (p @ [Key (str ''pem'')]) = Some (JStr s)" and c: "contains marker s"
  from pem_field_rewritten [OF a c]
  have r: "at_path (fix_certificates d) (p @ [Key (str ''pem'')]) = Some (JStr (replace_nl (strip s)))"
    by (simp add: flatten_replace)
  then show ?thesis by (auto simp: strip_snoc_NL)
qed

text \<open>The certificate that ends with a line feed.\<close>

theorem pem_rewritten_strip_replace_witness:
  "at_path newline_doc ([Key (str ''tlsCACerts'')] @ [Key (str ''pem'')]) = Some (JStr newline_pem)
   \<and> contains marker newline_pem
   \<and> newline_pem = (marker @ [NL] @ str ''ABC'') @ [NL]
   \<and> at_path (fix_certificates newline_doc) ([Key (str ''tlsCACerts'')] @ [Key (str ''pem'')])
       = Some (JStr (replace_nl (strip (marker @ [NL] @ str ''ABC''))))
   \<and> replace_nl (strip (marker @ [NL] @ str ''ABC'')) = marker @ escaped_nl @ str ''ABC''"
proof -
  have a: "at_path newline_doc ([Key (str ''tlsCACerts'')] @ [Key (str ''pem'')]) = Some (JStr newline_pem)"
    by (simp add: newline_doc_def)
  have e: "newline_pem = (marker @ [NL] @ str ''ABC'') @ [NL]" by (simp add: newline_pem_def)
  have v: "replace_nl (strip (marker @ [NL] @ str ''ABC'')) = marker @ escaped_nl @ str ''ABC''"
    by (simp add: replace_nl_def example_simps str_simps)
  from pem_rewritten_strip_replace [OF a contains_newline_pem]
  have "\<forall>s0. newline_pem = s0 @ [NL]
      \<longrightarrow> at_path (fix_certificates newline_doc) ([Key (str ''tlsCACerts'')] @ [Key (str ''pem'')])
          = Some (JStr (replace_nl (strip s0)))"
    by (rule conjunct2)
  with e have r: "at_path (fix_certificates newline_doc) ([Key (str ''tlsCACerts'')] @ [Key (str ''pem'')])
      = Some (JStr (replace_nl (strip (marker @ [NL] @ str ''ABC''))))"
    by blast
  from a contains_newline_pem e r v show ?thesis by (intro conjI)
qed

text \<open>
  C10: when reading or parsing the profile fails, or one of the two assignments fails,
  the run ends with an exception and the output file is as it was.
\<close>

theorem no_write_after_failure:
  "(\<exists>e. load decode loads fs = Inl e)
   \<or> (\<exists>doc e. load decode loads fs = Inr doc
        \<and> (fix_organization doc = Inl e
            \<or> (\<exists>d1. fix_organization doc = Inr d1 \<and> add_discovery d1 = Inl e)))
   \<Longrightarrow> (\<exists>e. snd (run decode loads dumps fs) = Inl e)
       \<and> files (fst (run decode loads dumps fs)) output_path = files fs output_path"
proof -
  assume "(\<exists>e. load decode loads fs = Inl e)
   \<or> (\<exists>doc e. load decode loads fs = Inr doc
        \<and> (fix_organization doc = Inl e
            \<or> (\<exists>d1. fix_organization doc = Inr d1 \<and> add_discovery d1 = Inl e)))"
  then have "(\<exists>e. load decode loads fs = Inl e)
      \<or> (\<exists>doc e. load decode loads fs = Inr doc \<and> patch doc = Inl e)"
    by (auto simp: patch_def)
  then show ?thesis
    using paths_distinct by (auto simp: run_cases Let_def cp_files)
qed

text \<open>The run without a profile.\<close>

theorem no_write_after_failure_witness:
  "load example_decode example_loads empty_fs = Inl FileNotFoundError
   \<and> snd (run example_decode example_loads example_dumps empty_fs) = Inl FileNotFoundError
   \<and> files (fst (run example_decode example_loads example_dumps empty_fs)) output_path
       = files empty_fs output_path"
proof -
  have l: "load example_decode example_loads empty_fs = Inl FileNotFoundError"
    by (simp add: load_def open_read_def empty_fs_def)
  then have "(\<exists>e. load example_decode example_loads empty_fs = Inl e)
   \<or> (\<exists>doc e. load example_decode example_loads empty_fs = Inr doc
        \<and> (fix_organization doc = Inl e
            \<or> (\<exists>d1. fix_organization doc = Inr d1 \<and> add_discovery d1 = Inl e)))"
    by blast
  from no_write_after_failure [OF this, of example_dumps] l show ?thesis
    by (simp add: run_empty_fs)
qed

end
